theory Spec2Isabelle
  imports Main "HOL-Library.AList"
begin

section \<open>JavaScript strings\<close>

text \<open>
  A JavaScript string is modelled as a \<open>string\<close>: a list of code units, each below 256
  (ASCII and Latin-1). All keywords and patterns of the engine are ASCII.
\<close>

text \<open>White space as \<open>\s\<close> and \<open>trim()\<close> see it: TAB, LF, VT, FF, CR, SP and NBSP.\<close>

definition is_space :: "char \<Rightarrow> bool" where
  "is_space c =
     (c = CHR 0x09 \<or> c = CHR 0x0A \<or> c = CHR 0x0B \<or> c = CHR 0x0C \<or> c = CHR 0x0D
      \<or> c = CHR 0x20 \<or> c = CHR 0xA0)"

definition is_digit :: "char \<Rightarrow> bool" where
  "is_digit c = (48 \<le> (of_char c :: nat) \<and> (of_char c :: nat) \<le> 57)"

text \<open>\<open>String.prototype.trim\<close>.\<close>

definition trim :: "string \<Rightarrow> string" where
  "trim s = rev (dropWhile is_space (rev (dropWhile is_space s)))"

text \<open>\<open>s.startsWith(p)\<close> and \<open>s.includes(sub)\<close>: case-sensitive.\<close>

fun startsWith :: "string \<Rightarrow> string \<Rightarrow> bool" where
  "startsWith s [] = True"
| "startsWith [] (p # ps) = False"
| "startsWith (c # cs) (p # ps) = (c = p \<and> startsWith cs ps)"

fun str_includes :: "string \<Rightarrow> string \<Rightarrow> bool" where
  "str_includes [] sub = (sub = [])"
| "str_includes (c # cs) sub = (startsWith (c # cs) sub \<or> str_includes cs sub)"



text \<open>
  Template-literal rendering of an integer below \<open>10^21\<close> in size: decimal digits, a
  minus sign if negative.
\<close>

definition digit_char :: "nat \<Rightarrow> char" where
  "digit_char d = char_of (48 + d)"

function show_nat :: "nat \<Rightarrow> string" where
  "show_nat n = (if n < 10 then [digit_char n] else show_nat (n div 10) @ [digit_char (n mod 10)])"
  by pat_completeness auto
termination
  by (relation "measure id") auto

definition show_int :: "int \<Rightarrow> string" where
  "show_int i = (if i < 0 then CHR ''-'' # show_nat (nat (- i)) else show_nat (nat i))"

section \<open>The environment snapshot\<close>

text \<open>
  A JavaScript object used as a dictionary is an association list in the order of
  \<open>Object.keys\<close>; assigning a key is \<open>AList.update\<close> (an existing key keeps its
  place, a new one goes last). A property that may be \<open>undefined\<close> is an option.
  The \<open>type\<close> property of a process is the field \<open>ptype\<close>. The lint counts are
  lengths of match arrays, so natural numbers; the TypeScript error count is \<open>-1\<close> when
  the check itself fails, so an integer.
\<close>

record process_info =
  pid :: "string option"
  status :: string
  port :: "string option"
  ptype :: string
  command :: "string option"

record endpoint_status =
  ep_port :: nat
  ep_status :: string
  healthy :: bool
  framework :: string

record ts_result =
  ts_errors :: int
  ts_clean :: bool

record lint_result =
  lint_errors :: nat
  lint_warnings :: nat
  lint_fixable :: bool

record build_result =
  build_success :: bool
  build_time :: "nat option"
  build_size :: "string option"

record quality =
  typescript :: ts_result
  lint :: lint_result
  build :: build_result

record git_status =
  branch :: string
  changedFiles :: nat
  git_clean :: bool

record readiness =
  score :: nat
  level :: string
  issues :: "string list"
  critical :: "string list"

type_synonym processes = "(string \<times> process_info) list"
type_synonym network = "(string \<times> endpoint_status) list"

section \<open>Readiness\<close>

text \<open>
  \<open>calculateReadiness\<close>: the four weighted sections update \<open>score\<close> and \<open>issues\<close>
  in the order of the source; each step below is one section.
\<close>

definition typescript_step :: "quality \<Rightarrow> nat \<times> string list \<Rightarrow> nat \<times> string list" where
  "typescript_step q = (\<lambda>(s, iss).
     if ts_clean (typescript q) then (s + 40, iss)
     else if ts_errors (typescript q) > 0
       then (s, iss @ [show_int (ts_errors (typescript q)) @ '' TypeScript errors''])
     else (s, iss))"

definition build_step :: "quality \<Rightarrow> nat \<times> string list \<Rightarrow> nat \<times> string list" where
  "build_step q = (\<lambda>(s, iss).
     if build_success (build q) then (s + 30, iss)
     else (s, iss @ [''Build failing'']))"

definition lint_step :: "quality \<Rightarrow> nat \<times> string list \<Rightarrow> nat \<times> string list" where
  "lint_step q = (\<lambda>(s, iss).
     if lint_errors (lint q) = 0 then (s + 20, iss)
     else if lint_errors (lint q) < 10
       then (s + 10,
             if lint_fixable (lint q)
             then iss @ [show_nat (lint_errors (lint q)) @ '' fixable lint errors'']
             else iss)
     else (s, iss @ [show_nat (lint_errors (lint q)) @ '' lint errors'']))"

definition hasRunningDev :: "processes \<Rightarrow> bool" where
  "hasRunningDev ps = (length (map fst ps) > 0)"

definition hasHealthyNetwork :: "network \<Rightarrow> bool" where
  "hasHealthyNetwork net = list_ex healthy (map snd net)"

definition dev_step :: "processes \<Rightarrow> network \<Rightarrow> nat \<times> string list \<Rightarrow> nat \<times> string list" where
  "dev_step ps net = (\<lambda>(s, iss).
     if hasRunningDev ps \<and> hasHealthyNetwork net then (s + 10, iss) else (s, iss))"

definition level_of :: "nat \<Rightarrow> string" where
  "level_of s = (if s \<ge> 90 then ''ready'' else if s \<ge> 70 then ''partial'' else ''not-ready'')"

definition calculateReadiness :: "processes \<Rightarrow> network \<Rightarrow> quality \<Rightarrow> git_status \<Rightarrow> readiness" where
  "calculateReadiness ps net q git =
     (case dev_step ps net (lint_step q (build_step q (typescript_step q (0, [])))) of
        (s, iss) \<Rightarrow>
          \<lparr> score = s, level = level_of s, issues = iss,
            critical = filter (\<lambda>i. str_includes i ''TypeScript'' \<or> str_includes i ''Build'') iss \<rparr>)"

section \<open>The line classifier\<close>









section \<open>The engine and its cache\<close>

text \<open>
  What the engine throws: \<open>new Error(message)\<close>, or the \<open>TypeError\<close> of reading a
  property of \<open>undefined\<close>.
\<close>

datatype js_error = Error string | TypeError string

text \<open>
  The parts of a snapshot that \<open>detectStateChanges\<close> reads, and its \<open>timestamp\<close>. The
  function guards the three parts against being absent, so they are options here;
  \<open>scan()\<close> fills all of them.
\<close>

record snapshot =
  scan_timestamp :: int
  processes :: "processes option"
  network :: "network option"
  readiness :: "readiness option"

text \<open>
  A cache entry \<open>{ data, timestamp, timeout }\<close>; times are milliseconds, as
  \<open>Date.now()\<close> gives them.
\<close>

record 'v cache_entry =
  data :: 'v
  timestamp :: int
  timeout :: int

text \<open>
  The fields of a \<open>ClaudeAuto\<close> instance that the cache and the monitor use. The
  \<open>Map\<close>s are association lists in insertion order; \<open>processMonitor\<close> holds the
  interval of the armed timer, \<open>None\<close> for \<open>null\<close>; \<open>emitted\<close> records the calls of
  \<open>this.emit\<close>, oldest first.
\<close>

datatype emitted_event =
  MonitoringStarted "string list" nat
| MonitoringStopped

record 'v engine =
  cache :: "(string \<times> 'v cache_entry) list"
  cacheTimeout :: int
  monitoring :: bool
  logWatchers :: "(string \<times> nat) list"
  processMonitor :: "nat option"
  lastKnownState :: "snapshot option"
  emitted :: "emitted_event list"

text \<open>The constructor.\<close>

definition new_engine :: "'v engine" where
  "new_engine =
     \<lparr> cache = [], cacheTimeout = 5000, monitoring = False, logWatchers = [],
       processMonitor = None, lastKnownState = None, emitted = [] \<rparr>"

text \<open>
  \<open>getCache(key)\<close> at time \<open>now\<close>: the value and the engine after the call.
  \<open>entry.timeout || this.cacheTimeout\<close> falls back to the default when the entry's
  timeout is 0.
\<close>

definition getCache :: "int \<Rightarrow> string \<Rightarrow> 'v engine \<Rightarrow> 'v option \<times> 'v engine" where
  "getCache now key e =
     (case map_of (cache e) key of
        None \<Rightarrow> (None, e)
      | Some entry \<Rightarrow>
          (let tmo = (if timeout entry \<noteq> 0 then timeout entry else cacheTimeout e)
           in if now - timestamp entry < tmo then (Some (data entry), e)
              else (None, e\<lparr> cache := AList.delete key (cache e) \<rparr>)))"

text \<open>
  \<open>setCache(key, data, timeout = this.cacheTimeout)\<close> at time \<open>now\<close>; \<open>None\<close> is the
  omitted third argument. \<open>Map.set\<close> first, then, if the map has more than 10 keys, the
  first key of the map is deleted.
\<close>

definition setCache :: "int \<Rightarrow> string \<Rightarrow> 'v \<Rightarrow> int option \<Rightarrow> 'v engine \<Rightarrow> 'v engine" where
  "setCache now key d tmo e =
     (let entry = \<lparr> data = d, timestamp = now,
                     timeout = (case tmo of None \<Rightarrow> cacheTimeout e | Some t \<Rightarrow> t) \<rparr>;
          c = AList.update key entry (cache e)
      in if length c > 10
         then (case c of [] \<Rightarrow> e\<lparr> cache := c \<rparr>
               | (oldestKey, _) # _ \<Rightarrow> e\<lparr> cache := AList.delete oldestKey c \<rparr>)
         else e\<lparr> cache := c \<rparr>)"

text \<open>A sequence of cache calls, each with the clock's reading, run from left to right.\<close>

datatype 'v cache_op = Get int string | Set int string 'v "int option"

fun run_cache :: "'v cache_op list \<Rightarrow> 'v engine \<Rightarrow> 'v engine" where
  "run_cache [] e = e"
| "run_cache (Get now key # ops) e = run_cache ops (snd (getCache now key e))"
| "run_cache (Set now key d tmo # ops) e = run_cache ops (setCache now key d tmo e)"

text \<open>
  The invariant of the cache: keys are unique (it is a \<open>Map\<close>) and there are at most 10.
\<close>

definition cache_ok :: "'v engine \<Rightarrow> bool" where
  "cache_ok e = (distinct (map fst (cache e)) \<and> length (cache e) \<le> 10)"

section \<open>The differ\<close>

text \<open>
  The change objects of \<open>detectStateChanges\<close>, one constructor for each \<open>type\<close> tag:
  \<open>process:crashed\<close> and \<open>process:started\<close> with \<open>process\<close> and \<open>pid\<close>,
  \<open>network:down\<close> and \<open>network:up\<close> with \<open>endpoint\<close> and \<open>port\<close>
  (\<open>None\<close> for a \<open>port\<close> that is \<open>undefined\<close>),
  \<open>readiness:changed\<close> with \<open>from\<close>, \<open>to\<close> and \<open>score\<close>.
\<close>

datatype change =
  ProcessCrashed string "string option"
| ProcessStarted string "string option"
| NetworkDown string "nat option"
| NetworkUp string "nat option"
| ReadinessChanged string string nat

text \<open>
  \<open>x || {}\<close> for a dictionary that may be absent. Below, \<open>beforeS\<close> and \<open>afterS\<close>
  are the source's \<open>before\<close> and \<open>after\<close>.
\<close>

definition or_empty :: "('k \<times> 'v) list option \<Rightarrow> ('k \<times> 'v) list" where
  "or_empty x = (case x of None \<Rightarrow> [] | Some d \<Rightarrow> d)"

text \<open>
  The two loops over the process names. A name comes from \<open>Object.keys\<close> of the dictionary
  that is then indexed with it, so the loop runs over the dictionary's entries.
\<close>

definition crashed_changes :: "processes \<Rightarrow> string list \<Rightarrow> change list" where
  "crashed_changes beforeS afterProcesses =
     [ProcessCrashed processName (pid info).
        (processName, info) \<leftarrow> beforeS, processName \<notin> set afterProcesses]"

definition started_changes :: "processes \<Rightarrow> string list \<Rightarrow> change list" where
  "started_changes afterS beforeProcesses =
     [ProcessStarted processName (pid info).
        (processName, info) \<leftarrow> afterS, processName \<notin> set beforeProcesses]"

text \<open>
  A property read \<open>obj[name]\<close> on a plain object (one whose prototype is
  \<open>Object.prototype\<close>, as \<open>Object.fromEntries\<close> and object literals make them): the
  object's own property if it has one; otherwise, for the twelve names that
  \<open>Object.prototype\<close> defines, the inherited member (a function, or the prototype itself
  for \<open>__proto__\<close>); otherwise \<open>undefined\<close>.
\<close>

definition object_prototype_members :: "string list" where
  "object_prototype_members =
     [''constructor'', ''__defineGetter__'', ''__defineSetter__'', ''hasOwnProperty'',
      ''__lookupGetter__'', ''__lookupSetter__'', ''isPrototypeOf'', ''propertyIsEnumerable'',
      ''toString'', ''valueOf'', ''__proto__'', ''toLocaleString'']"

datatype 'a property = Own 'a | Inherited | Undefined

definition get_property :: "(string \<times> 'a) list \<Rightarrow> string \<Rightarrow> 'a property" where
  "get_property obj name =
     (case map_of obj name of
        Some v \<Rightarrow> Own v
      | None \<Rightarrow> if name \<in> set object_prototype_members then Inherited else Undefined)"

text \<open>
  The loop over \<open>Object.entries(before.network)\<close>, with
  \<open>afterStatus = after.network[endpoint]\<close>.
  When \<open>afterStatus\<close> is \<open>undefined\<close>, both conditions read \<open>afterStatus.healthy\<close>
  (the first when \<open>beforeStatus.healthy\<close> holds, the second when it does not): a
  \<open>TypeError\<close>, which leaves the function.
  When \<open>afterStatus\<close> is an inherited member of \<open>Object.prototype\<close>, its \<open>healthy\<close>
  and \<open>port\<close> are \<open>undefined\<close>: a healthy previous status gives \<open>network:down\<close> with
  an undefined port, an unhealthy one gives nothing.
\<close>

fun network_changes :: "network \<Rightarrow> network \<Rightarrow> js_error + change list" where
  "network_changes [] afterS = Inr []"
| "network_changes ((endpoint, beforeStatus) # rest) afterS =
     (case get_property afterS endpoint of
        Undefined \<Rightarrow> Inl (TypeError ''healthy'')
      | Inherited \<Rightarrow>
          (case network_changes rest afterS of
             Inl err \<Rightarrow> Inl err
           | Inr changes \<Rightarrow>
               Inr ((if healthy beforeStatus then [NetworkDown endpoint None] else [])
                    @ changes))
      | Own afterStatus \<Rightarrow>
          (case network_changes rest afterS of
             Inl err \<Rightarrow> Inl err
           | Inr changes \<Rightarrow>
               Inr ((if healthy beforeStatus \<and> \<not> healthy afterStatus
                     then [NetworkDown endpoint (Some (ep_port afterStatus))]
                     else if \<not> healthy beforeStatus \<and> healthy afterStatus
                     then [NetworkUp endpoint (Some (ep_port afterStatus))]
                     else []) @ changes)))"

definition readiness_changes :: "readiness option \<Rightarrow> readiness option \<Rightarrow> change list" where
  "readiness_changes beforeS afterS =
     (case (beforeS, afterS) of
        (Some b, Some a) \<Rightarrow>
          (if level b \<noteq> level a then [ReadinessChanged (level b) (level a) (score a)] else [])
      | _ \<Rightarrow> [])"

definition detectStateChanges :: "snapshot \<Rightarrow> snapshot \<Rightarrow> js_error + change list" where
  "detectStateChanges beforeS afterS =
     (let beforeProcesses = map fst (or_empty (processes beforeS));
          afterProcesses = map fst (or_empty (processes afterS));
          process_part = crashed_changes (or_empty (processes beforeS)) afterProcesses
                         @ started_changes (or_empty (processes afterS)) beforeProcesses;
          network_part = (case (network beforeS, network afterS) of
                            (Some bn, Some an) \<Rightarrow> network_changes bn an
                          | _ \<Rightarrow> Inr [])
      in case network_part of
           Inl err \<Rightarrow> Inl err
         | Inr network_list \<Rightarrow>
             Inr (process_part @ network_list
                  @ readiness_changes (readiness beforeS) (readiness afterS)))"

text \<open>A dictionary has each key once.\<close>

definition wf_snapshot :: "snapshot \<Rightarrow> bool" where
  "wf_snapshot s =
     (distinct (map fst (or_empty (processes s))) \<and> distinct (map fst (or_empty (network s))))"

section \<open>The process probe\<close>

text \<open>\<open>s.split('\n')\<close>: the pieces between the occurrences of one character.\<close>

fun split_char :: "char \<Rightarrow> string \<Rightarrow> string \<Rightarrow> string list" where
  "split_char sep cur [] = [rev cur]"
| "split_char sep cur (c # cs) =
     (if c = sep then rev cur # split_char sep [] cs else split_char sep (c # cur) cs)"

text \<open>
  \<open>s.split(/\s+/)\<close>: the pieces between the maximal runs of white space; a run at the
  start or at the end gives an empty first or last piece.
\<close>

function split_ws :: "string \<Rightarrow> string \<Rightarrow> string list" where
  "split_ws cur [] = [rev cur]"
| "split_ws cur (c # cs) =
     (if is_space c then rev cur # split_ws [] (dropWhile is_space cs)
      else split_ws (c # cur) cs)"
  by pat_completeness auto
termination
  by (relation "measure (\<lambda>(cur, s). length s)")
     (auto simp: le_imp_less_Suc length_dropWhile_le)

text \<open>\<open>parts.join(' ')\<close>.\<close>

fun join_space :: "string list \<Rightarrow> string" where
  "join_space [] = []"
| "join_space [x] = x"
| "join_space (x # y # rest) = x @ '' '' @ join_space (y # rest)"

text \<open>\<open>parts[i]\<close>, \<open>undefined\<close> when out of range.\<close>

definition nth_opt :: "'a list \<Rightarrow> nat \<Rightarrow> 'a option" where
  "nth_opt xs i = (if i < length xs then Some (xs ! i) else None)"

text \<open>
  The port pattern \<open>/(?:--port|port|PORT)[\s=:]+(\d+)/\<close>. \<open>port_at s\<close> is the capture
  of the match that starts at the head of \<open>s\<close>: one of the three words, a non-empty run
  of separators, a non-empty run of digits. The separators and the digits are disjoint, so
  the greedy runs are the only way to match. \<open>port_match\<close> is the leftmost match.
\<close>

definition is_port_sep :: "char \<Rightarrow> bool" where
  "is_port_sep c = (is_space c \<or> c = CHR ''='' \<or> c = CHR '':'')"

definition port_after :: "string \<Rightarrow> string option" where
  "port_after rest =
     (let seps = takeWhile is_port_sep rest;
          digits = takeWhile is_digit (dropWhile is_port_sep rest)
      in if seps = [] \<or> digits = [] then None else Some digits)"

definition port_at :: "string \<Rightarrow> string option" where
  "port_at s =
     (if startsWith s ''--port'' then port_after (drop 6 s)
      else if startsWith s ''port'' then port_after (drop 4 s)
      else if startsWith s ''PORT'' then port_after (drop 4 s)
      else None)"

fun port_match :: "string \<Rightarrow> string option" where
  "port_match [] = None"
| "port_match (c # cs) = (case port_at (c # cs) of Some d \<Rightarrow> Some d | None \<Rightarrow> port_match cs)"

definition extractPort :: "string \<Rightarrow> string" where
  "extractPort cmd =
     (case port_match cmd of
        Some p \<Rightarrow> p
      | None \<Rightarrow>
          if str_includes cmd ''astro'' then ''4321''
          else if str_includes cmd ''vite'' then ''5173''
          else if str_includes cmd ''next'' then ''3000''
          else if str_includes cmd ''react'' \<and> \<not> str_includes cmd ''next'' then ''3000''
          else if str_includes cmd ''convex'' then ''3210''
          else if str_includes cmd ''nuxt'' then ''3000''
          else if str_includes cmd ''svelte'' then ''5173''
          else if str_includes cmd ''vue'' then ''8080''
          else ''unknown'')"

text \<open>\<open>a || b\<close> on strings: the empty string is falsy.\<close>

definition str_or :: "string \<Rightarrow> string \<Rightarrow> string" where
  "str_or a b = (if a = [] then b else a)"

text \<open>
  The body of the loop of \<open>scanProcesses\<close> for one line of the \<open>ps\<close> output: the first
  matching branch assigns one key of \<open>processes\<close>; a line that matches none leaves it.
\<close>

definition scan_line :: "string \<Rightarrow> processes \<Rightarrow> processes" where
  "scan_line line procs =
     (let parts = split_ws [] line;
          p = nth_opt parts 1;
          cmd = join_space (drop 10 parts)
      in if str_includes cmd ''turbo'' \<and> str_includes cmd ''dev'' then
           AList.update ''turbo''
             \<lparr> pid = p, status = ''running'', port = None, ptype = ''monorepo-dev'',
               command = Some (trim cmd) \<rparr> procs
         else if str_includes cmd ''astro'' \<and> str_includes cmd ''dev'' then
           AList.update ''astro''
             \<lparr> pid = p, status = ''running'', port = Some (str_or (extractPort cmd) ''4321''),
               ptype = ''astro-dev'', command = None \<rparr> procs
         else if str_includes cmd ''vite''
                 \<or> (str_includes cmd ''npm'' \<and> str_includes cmd ''dev''
                     \<and> \<not> str_includes cmd ''next'') then
           AList.update ''vite''
             \<lparr> pid = p, status = ''running'', port = Some (str_or (extractPort cmd) ''5173''),
               ptype = ''vite-dev'', command = None \<rparr> procs
         else if str_includes cmd ''next''
                 \<or> (str_includes cmd ''npm'' \<and> str_includes cmd ''dev''
                     \<and> str_includes cmd ''next'') then
           AList.update ''next''
             \<lparr> pid = p, status = ''running'', port = Some ''3000'', ptype = ''next-dev'',
               command = None \<rparr> procs
         else if str_includes cmd ''convex'' then
           AList.update ''convex''
             \<lparr> pid = p, status = ''running'', port = Some ''3210'',
               ptype = (if str_includes cmd ''convex dev'' then ''local'' else ''cloud''),
               command = None \<rparr> procs
         else if str_includes cmd ''dev''
                 \<and> (str_includes cmd ''npm'' \<or> str_includes cmd ''yarn''
                     \<or> str_includes cmd ''pnpm'') then
           AList.update ''dev''
             \<lparr> pid = p, status = ''running'', port = Some (str_or (extractPort cmd) ''unknown''),
               ptype = ''generic-dev'', command = None \<rparr> procs
         else procs)"

text \<open>
  \<open>scanProcesses\<close>, given the outcome of running the \<open>ps | grep | head\<close> pipeline: its
  standard output, or the rejection of \<open>execAsync\<close>, which the \<open>catch\<close> turns into the
  empty dictionary.
\<close>

definition scanProcesses :: "js_error + string \<Rightarrow> processes" where
  "scanProcesses outcome =
     (case outcome of
        Inl err \<Rightarrow> []
      | Inr stdout \<Rightarrow>
          (let ls = filter (\<lambda>line. length line > 0) (split_char CHR 0x0A [] (trim stdout))
           in fold scan_line ls []))"

text \<open>\<open>canStart\<close>: no key in the dictionary that \<open>scanProcesses\<close> returns.\<close>

definition canStart :: "js_error + string \<Rightarrow> bool" where
  "canStart outcome = (length (map fst (scanProcesses outcome)) = 0)"

section \<open>The monitor\<close>

text \<open>
  The \<open>options\<close> argument of \<open>startMonitoring\<close>; \<open>None\<close> is a property left out, which
  the destructuring replaces by its default.
\<close>

record monitoring_options =
  interval :: "nat option"
  logFiles :: "string list option"
  watchProcesses :: "bool option"
  watchNetwork :: "bool option"
  autoRestart :: "bool option"

text \<open>
  What the monitor asks of its environment. \<open>spawn_tail logName\<close> is the outcome of
  creating the log file if needed and spawning \<open>tail -f\<close> on it: an exception, or the
  handle of the child process. \<open>scan_outcome e\<close> is the outcome of \<open>scan()\<close> called in
  engine state \<open>e\<close>: an exception or the snapshot, and the cache as \<open>scan()\<close> leaves it
  (the cache is the only field \<open>scan()\<close> writes).
\<close>

record 'v world =
  spawn_tail :: "string \<Rightarrow> js_error + nat"
  scan_outcome :: "'v engine \<Rightarrow> (js_error + snapshot) \<times> (string \<times> 'v cache_entry) list"

definition startLogWatcher :: "'v world \<Rightarrow> string \<Rightarrow> 'v engine \<Rightarrow> (js_error + nat) \<times> 'v engine" where
  "startLogWatcher w logName e =
     (case spawn_tail w logName of
        Inl err \<Rightarrow> (Inl err, e)
      | Inr tailProcess \<Rightarrow>
          (Inr tailProcess, e\<lparr> logWatchers := AList.update logName tailProcess (logWatchers e) \<rparr>))"

text \<open>The loop \<open>for (const logName of logFiles) await this.startLogWatcher(logName)\<close>.\<close>

fun start_watchers :: "'v world \<Rightarrow> string list \<Rightarrow> 'v engine \<Rightarrow> (js_error + unit) \<times> 'v engine" where
  "start_watchers w [] e = (Inr (), e)"
| "start_watchers w (logName # rest) e =
     (case startLogWatcher w logName e of
        (Inl err, e') \<Rightarrow> (Inl err, e')
      | (Inr _, e') \<Rightarrow> start_watchers w rest e')"

definition startProcessMonitoring :: "nat \<Rightarrow> 'v engine \<Rightarrow> 'v engine" where
  "startProcessMonitoring ms e = e\<lparr> processMonitor := Some ms \<rparr>"

definition startNetworkMonitoring :: "nat \<Rightarrow> 'v engine \<Rightarrow> 'v engine" where
  "startNetworkMonitoring ms e = e"

text \<open>
  \<open>startMonitoring(options)\<close>: the guard, the flag, then the \<open>try\<close> block, whose
  \<open>catch\<close> resets the flag (and nothing else) and throws the error again.
\<close>

definition startMonitoring ::
  "'v world \<Rightarrow> monitoring_options \<Rightarrow> 'v engine \<Rightarrow> (js_error + unit) \<times> 'v engine" where
  "startMonitoring w options e =
     (if monitoring e then (Inl (Error ''Monitoring already active''), e)
      else
        (let ms = (case interval options of None \<Rightarrow> 5000 | Some i \<Rightarrow> i);
             names = (case logFiles options of
                        None \<Rightarrow> [''dev-server'', ''build'', ''test'', ''convex'']
                      | Some l \<Rightarrow> l);
             procs = (case watchProcesses options of None \<Rightarrow> True | Some b \<Rightarrow> b);
             net = (case watchNetwork options of None \<Rightarrow> True | Some b \<Rightarrow> b);
             e1 = e\<lparr> monitoring := True \<rparr>
         in case start_watchers w names e1 of
              (Inl err, e2) \<Rightarrow> (Inl err, e2\<lparr> monitoring := False \<rparr>)
            | (Inr _, e2) \<Rightarrow>
                (let e3 = (if procs then startProcessMonitoring ms e2 else e2);
                     e4 = (if net then startNetworkMonitoring ms e3 else e3)
                 in case scan_outcome w e4 of
                      (Inl err, c) \<Rightarrow> (Inl err, e4\<lparr> cache := c, monitoring := False \<rparr>)
                    | (Inr s, c) \<Rightarrow>
                        (Inr (), e4\<lparr> cache := c, lastKnownState := Some s,
                                      emitted := emitted e4 @ [MonitoringStarted names ms] \<rparr>))))"

definition stopMonitoring :: "'v engine \<Rightarrow> 'v engine" where
  "stopMonitoring e =
     (if \<not> monitoring e then e
      else e\<lparr> monitoring := False, logWatchers := [], processMonitor := None,
              emitted := emitted e @ [MonitoringStopped] \<rparr>)"

section \<open>Specification predicates\<close>




section \<open>Concrete inputs\<close>

definition green_quality :: quality where
  "green_quality =
     \<lparr> typescript = \<lparr> ts_errors = 0, ts_clean = True \<rparr>,
       lint = \<lparr> lint_errors = 0, lint_warnings = 2, lint_fixable = False \<rparr>,
       build = \<lparr> build_success = True, build_time = Some 850, build_size = Some ''1.2M'' \<rparr> \<rparr>"

definition red_quality :: quality where
  "red_quality =
     \<lparr> typescript = \<lparr> ts_errors = 3, ts_clean = False \<rparr>,
       lint = \<lparr> lint_errors = 12, lint_warnings = 0, lint_fixable = False \<rparr>,
       build = \<lparr> build_success = False, build_time = None, build_size = None \<rparr> \<rparr>"

definition one_process :: processes where
  "one_process =
     [(''vite'', \<lparr> pid = Some ''4242'', status = ''running'', port = Some ''5173'',
                  ptype = ''vite-dev'', command = None \<rparr>)]"

definition one_healthy_endpoint :: network where
  "one_healthy_endpoint =
     [(''vite'', \<lparr> ep_port = 5173, ep_status = ''200'', healthy = True, framework = ''vite'' \<rparr>)]"

definition some_git :: git_status where
  "some_git = \<lparr> branch = ''main'', changedFiles = 0, git_clean = True \<rparr>"


definition ten_keys :: "string list" where
  "ten_keys = [''k0'', ''k1'', ''k2'', ''k3'', ''k4'', ''k5'', ''k6'', ''k7'', ''k8'', ''k9'']"

definition full_engine :: "nat engine" where
  "full_engine = run_cache (map (\<lambda>k. Set 0 k 7 None) ten_keys) new_engine"

definition mk_endpoint :: "nat \<Rightarrow> bool \<Rightarrow> endpoint_status" where
  "mk_endpoint p h =
     \<lparr> ep_port = p, ep_status = (if h then ''200'' else ''offline''), healthy = h,
       framework = ''generic'' \<rparr>"

definition dev_process :: "string \<Rightarrow> process_info" where
  "dev_process p =
     \<lparr> pid = Some p, status = ''running'', port = Some ''5173'', ptype = ''vite-dev'',
       command = None \<rparr>"

definition ready_100 :: readiness where
  "ready_100 = \<lparr> score = 100, level = ''ready'', issues = [], critical = [] \<rparr>"

definition snapshot_before :: snapshot where
  "snapshot_before =
     \<lparr> scan_timestamp = 1000,
       processes = Some [(''vite'', dev_process ''4242''), (''convex'', dev_process ''4243'')],
       network = Some [(''vite'', mk_endpoint 5173 True), (''convex'', mk_endpoint 3210 False)],
       readiness = Some ready_100 \<rparr>"

definition snapshot_after_crash :: snapshot where
  "snapshot_after_crash =
     \<lparr> scan_timestamp = 6000,
       processes = Some [(''vite'', dev_process ''4242'')],
       network = Some [(''convex'', mk_endpoint 3210 False), (''vite'', mk_endpoint 5173 True)],
       readiness = Some ready_100 \<rparr>"

definition snapshot_endpoint_missing :: snapshot where
  "snapshot_endpoint_missing =
     \<lparr> scan_timestamp = 6000,
       processes = Some [(''vite'', dev_process ''4242''), (''convex'', dev_process ''4243'')],
       network = Some [(''vite'', mk_endpoint 5173 True)],
       readiness = Some ready_100 \<rparr>"

definition snapshot_inherited_name :: "bool \<Rightarrow> snapshot" where
  "snapshot_inherited_name h =
     \<lparr> scan_timestamp = 1000,
       processes = Some [(''vite'', dev_process ''4242''), (''convex'', dev_process ''4243'')],
       network = Some [(''vite'', mk_endpoint 5173 True), (''toString'', mk_endpoint 8080 h)],
       readiness = Some ready_100 \<rparr>"

definition snapshot_same :: snapshot where
  "snapshot_same =
     \<lparr> scan_timestamp = 6000,
       processes = Some [(''convex'', dev_process ''4243''), (''vite'', dev_process ''4242'')],
       network = Some [(''convex'', mk_endpoint 3210 False), (''vite'', mk_endpoint 5173 True)],
       readiness = Some (ready_100\<lparr> score := 90 \<rparr>) \<rparr>"

definition quiet_world :: "nat world" where
  "quiet_world =
     \<lparr> spawn_tail = (\<lambda>logName. Inr (length logName)),
       scan_outcome = (\<lambda>e. (Inr snapshot_before, cache e)) \<rparr>"

definition default_options :: monitoring_options where
  "default_options =
     \<lparr> interval = None, logFiles = None, watchProcesses = None, watchNetwork = None,
       autoRestart = None \<rparr>"

definition started_engine :: "nat engine" where
  "started_engine = snd (startMonitoring quiet_world default_options new_engine)"

definition sample_ps_output :: string where
  "sample_ps_output =
     ''dev 4242 0.0 0.1 1234 5678 pts/0 Sl+ 10:00 0:01 node node_modules/.bin/vite --port 3001''
     @ [CHR 0x0A]
     @ ''dev 4243 0.0 0.1 1234 5678 pts/1 Sl+ 10:00 0:02 npx convex dev''
     @ [CHR 0x0A]
     @ ''dev 4244 0.0 0.1 1234 5678 pts/2 Sl+ 10:00 0:00 webpack --watch''
     @ [CHR 0x0A]"

section \<open>Properties of the readiness computation\<close>

lemma fst_typescript_step:
  "fst (typescript_step q p) = fst p + (if ts_clean (typescript q) then 40 else 0)"
  by (cases p) (simp add: typescript_step_def)

lemma fst_build_step:
  "fst (build_step q p) = fst p + (if build_success (build q) then 30 else 0)"
  by (cases p) (simp add: build_step_def)

lemma fst_lint_step:
  "fst (lint_step q p) = fst p +
     (if lint_errors (lint q) = 0 then 20 else if lint_errors (lint q) < 10 then 10 else 0)"
  by (cases p) (simp add: lint_step_def)

lemma fst_dev_step:
  "fst (dev_step ps net p) =
     fst p + (if hasRunningDev ps \<and> hasHealthyNetwork net then 10 else 0)"
  by (cases p) (simp add: dev_step_def)

lemma score_is_fst:
  "score (calculateReadiness ps net q git) =
     fst (dev_step ps net (lint_step q (build_step q (typescript_step q (0, [])))))"
  by (simp add: calculateReadiness_def split: prod.splits)

text \<open>The score is the sum of the four sections' points.\<close>

lemma score_calculateReadiness:
  "score (calculateReadiness ps net q git) =
     (if ts_clean (typescript q) then 40 else 0) + (if build_success (build q) then 30 else 0)
     + (if lint_errors (lint q) = 0 then 20 else if lint_errors (lint q) < 10 then 10 else 0)
     + (if hasRunningDev ps \<and> hasHealthyNetwork net then 10 else 0)"
  unfolding score_is_fst fst_dev_step fst_lint_step fst_build_step fst_typescript_step
  by simp

lemma typescript_step_clean:
  "ts_clean (typescript q) \<Longrightarrow> typescript_step q (s, iss) = (s + 40, iss)"
  by (simp add: typescript_step_def)

lemma build_step_success:
  "build_success (build q) \<Longrightarrow> build_step q (s, iss) = (s + 30, iss)"
  by (simp add: build_step_def)

lemma lint_step_zero:
  "lint_errors (lint q) = 0 \<Longrightarrow> lint_step q (s, iss) = (s + 20, iss)"
  by (simp add: lint_step_def)

lemma dev_step_bonus:
  "hasRunningDev ps \<Longrightarrow> hasHealthyNetwork net \<Longrightarrow> dev_step ps net (s, iss) = (s + 10, iss)"
  by (simp add: dev_step_def)

text \<open>
  C1. With a clean type-check, a successful build, no lint error (whatever the number of
  warnings), at least one running process and at least one healthy endpoint,
  \<open>calculateReadiness\<close> returns score 100 = 40 + 30 + 20 + 10, level \<open>ready\<close> and no
  issue (so no critical issue either).
\<close>

theorem readiness_all_green:
  assumes "ts_clean (typescript q)" and "build_success (build q)"
    and "lint_errors (lint q) = 0"
    and "ps \<noteq> []" and "\<exists>e \<in> set net. healthy (snd e)"
  shows "calculateReadiness ps net q git =
           \<lparr> score = 40 + 30 + 20 + 10, level = ''ready'', issues = [], critical = [] \<rparr>
         \<and> score (calculateReadiness ps net q git) = 100"
proof -
  have run: "hasRunningDev ps"
    using assms(4) by (simp add: hasRunningDev_def)
  have net: "hasHealthyNetwork net"
    using assms(5) by (auto simp: hasHealthyNetwork_def list_ex_iff)
  have steps: "dev_step ps net (lint_step q (build_step q (typescript_step q (0, [])))) = (100, [])"
    by (simp add: typescript_step_clean [OF assms(1)] build_step_success [OF assms(2)]
        lint_step_zero [OF assms(3)] dev_step_bonus [OF run net])
  show ?thesis
    by (simp add: calculateReadiness_def steps level_of_def)
qed

theorem readiness_all_green_witness:
  "calculateReadiness one_process one_healthy_endpoint green_quality some_git =
     \<lparr> score = 100, level = ''ready'', issues = [], critical = [] \<rparr>"
  using readiness_all_green [of green_quality one_process one_healthy_endpoint some_git]
  by (simp add: green_quality_def one_process_def one_healthy_endpoint_def)

text \<open>
  C8. The score never decreases when a factor improves: the type-check becomes clean, the
  build succeeds, the number of lint errors goes down, or the bonus condition (a running
  process together with a healthy endpoint) becomes true. The theorem lets any of the
  factors improve at once; holding all but one equal is the special case of the claim.
\<close>

theorem readiness_score_monotone:
  assumes "ts_clean (typescript q) \<longrightarrow> ts_clean (typescript q')"
    and "build_success (build q) \<longrightarrow> build_success (build q')"
    and "lint_errors (lint q') \<le> lint_errors (lint q)"
    and "hasRunningDev ps \<and> hasHealthyNetwork net
           \<longrightarrow> hasRunningDev ps' \<and> hasHealthyNetwork net'"
  shows "score (calculateReadiness ps net q git) \<le> score (calculateReadiness ps' net' q' git')"
proof -
  have ts: "(if ts_clean (typescript q) then 40 else 0)
              \<le> (if ts_clean (typescript q') then 40 else (0::nat))"
    using assms(1) by simp
  have bd: "(if build_success (build q) then 30 else 0)
              \<le> (if build_success (build q') then 30 else (0::nat))"
    using assms(2) by simp
  have li: "(if lint_errors (lint q) = 0 then 20 else if lint_errors (lint q) < 10 then 10 else 0)
              \<le> (if lint_errors (lint q') = 0 then 20
                   else if lint_errors (lint q') < 10 then 10 else (0::nat))"
    using assms(3) by simp
  have dv: "(if hasRunningDev ps \<and> hasHealthyNetwork net then 10 else 0)
              \<le> (if hasRunningDev ps' \<and> hasHealthyNetwork net' then 10 else (0::nat))"
    using assms(4) by simp
  show ?thesis
    unfolding score_calculateReadiness
    using ts bd li dv by (rule add_mono [OF add_mono [OF add_mono]])
qed

theorem readiness_score_monotone_witness:
  "score (calculateReadiness [] [] red_quality some_git) = 0
   \<and> score (calculateReadiness one_process one_healthy_endpoint green_quality some_git) = 100
   \<and> score (calculateReadiness [] [] red_quality some_git)
       \<le> score (calculateReadiness one_process one_healthy_endpoint green_quality some_git)"
  using readiness_score_monotone [of red_quality green_quality "[]" "[]" one_process
      one_healthy_endpoint some_git some_git]
  by (simp add: score_calculateReadiness green_quality_def red_quality_def one_process_def
      one_healthy_endpoint_def hasRunningDev_def hasHealthyNetwork_def)

section \<open>Properties of the line classifier\<close>
















section \<open>Properties of the cache\<close>

text \<open>A new key is appended; an existing key is overwritten where it stands.\<close>

lemma update_new_key: "k \<notin> fst ` set al \<Longrightarrow> AList.update k v al = al @ [(k, v)]"
  by (induction al) auto

lemma length_update_old_key: "k \<in> fst ` set al \<Longrightarrow> length (AList.update k v al) = length al"
  by (induction al) auto

lemma setCache_cache:
  assumes "cache_ok e"
  shows "cache (setCache now key d tmo e) =
           (let entry = \<lparr> data = d, timestamp = now,
                           timeout = (case tmo of None \<Rightarrow> cacheTimeout e | Some t \<Rightarrow> t) \<rparr>
            in if key \<notin> fst ` set (cache e) \<and> length (cache e) = 10
               then tl (cache e) @ [(key, entry)]
               else AList.update key entry (cache e))"
proof (cases "key \<in> fst ` set (cache e)")
  case True
  then have "length (AList.update key x (cache e)) \<le> 10" for x
    using assms by (simp add: length_update_old_key cache_ok_def)
  then show ?thesis using True
    by (simp add: setCache_def Let_def not_less [symmetric])
next
  case new: False
  show ?thesis
  proof (cases "length (cache e) = 10")
    case True
    then obtain k0 v0 rest where c: "cache e = (k0, v0) # rest"
      by (cases "cache e") auto
    have ne: "k0 \<noteq> key" using new c by auto
    have "k0 \<notin> fst ` set rest" using assms c by (auto simp: cache_ok_def)
    with ne have "k0 \<notin> fst ` set (rest @ [(key, x)])" for x
      by auto
    then have del: "AList.delete k0 ((k0, v0) # rest @ [(key, x)]) = rest @ [(key, x)]" for x
      by (simp add: delete_id del: set_append)
    have upd: "AList.update key x (cache e) = (k0, v0) # rest @ [(key, x)]" for x
      using update_new_key [OF new, of x] c by simp
    have len: "length ((k0, v0) # rest @ [(key, x)]) > 10" for x
      using True c by simp
    show ?thesis using new True
      by (simp only: setCache_def Let_def upd len if_True list.case prod.case del)
         (simp add: c)
  next
    case False
    then have "length (cache e) < 10" using assms by (simp add: cache_ok_def)
    then show ?thesis using new False
      by (simp add: setCache_def Let_def update_new_key)
  qed
qed

lemma setCache_lookup:
  assumes "cache_ok e"
  shows "map_of (cache (setCache now key d tmo e)) key =
           Some \<lparr> data = d, timestamp = now,
                  timeout = (case tmo of None \<Rightarrow> cacheTimeout e | Some t \<Rightarrow> t) \<rparr>"
proof -
  have "key \<notin> fst ` set (cache e) \<Longrightarrow> key \<notin> fst ` set (tl (cache e))"
    by (cases "cache e") auto
  then have "key \<notin> fst ` set (cache e) \<Longrightarrow> map_of (tl (cache e)) key = None"
    by (simp add: map_of_eq_None_iff)
  then show ?thesis
    by (simp add: setCache_cache [OF assms] Let_def update_conv' map_add_def)
qed

lemma setCache_ok:
  assumes "cache_ok e"
  shows "cache_ok (setCache now key d tmo e)"
proof -
  let ?x = "\<lparr> data = d, timestamp = now,
                timeout = (case tmo of None \<Rightarrow> cacheTimeout e | Some t \<Rightarrow> t) \<rparr>"
  have d: "distinct (map fst (cache e))" and l: "length (cache e) \<le> 10"
    using assms by (simp_all add: cache_ok_def)
  show ?thesis
  proof (cases "key \<notin> fst ` set (cache e) \<and> length (cache e) = 10")
    case True
    then obtain k0 v0 rest where c: "cache e = (k0, v0) # rest"
      by (cases "cache e") auto
    then show ?thesis using True d
      by (auto simp: cache_ok_def setCache_cache [OF assms])
  next
    case False
    have "distinct (map fst (AList.update key ?x (cache e)))"
      using d by (rule distinct_update)
    moreover have "length (AList.update key ?x (cache e)) \<le> 10"
    proof (cases "key \<in> fst ` set (cache e)")
      case True
      then show ?thesis using l by (simp add: length_update_old_key)
    next
      case False
      with \<open>\<not> (key \<notin> fst ` set (cache e) \<and> length (cache e) = 10)\<close> l
      show ?thesis by (simp add: update_new_key)
    qed
    moreover have "cache (setCache now key d tmo e) = AList.update key ?x (cache e)"
      by (simp only: setCache_cache [OF assms] Let_def if_not_P [OF False])
    ultimately show ?thesis
      by (simp add: cache_ok_def)
  qed
qed

lemma getCache_ok:
  assumes "cache_ok e"
  shows "cache_ok (snd (getCache now key e))"
proof -
  have "distinct (map fst (AList.delete key (cache e)))"
    using assms by (simp add: cache_ok_def distinct_delete)
  moreover have "length (AList.delete key (cache e)) \<le> 10"
    using assms length_delete_le [of key "cache e"] by (simp add: cache_ok_def)
  ultimately show ?thesis using assms
    by (simp add: getCache_def cache_ok_def Let_def split: option.splits)
qed

lemma new_engine_ok: "cache_ok new_engine"
  by (simp add: cache_ok_def new_engine_def)

lemma run_cache_ok: "cache_ok e \<Longrightarrow> cache_ok (run_cache ops e)"
proof (induction ops arbitrary: e)
  case Nil
  then show ?case by simp
next
  case (Cons op ops)
  then show ?case by (cases op) (simp_all add: getCache_ok setCache_ok)
qed


text \<open>
  C3. After \<open>setCache(key, v, ttl)\<close> at time \<open>now\<close> with \<open>ttl > 0\<close>, a
  \<open>getCache(key)\<close> at a time \<open>t\<close> with \<open>t - now < ttl\<close> returns \<open>v\<close> and leaves the
  engine as it is; at a time \<open>t \<ge> now + ttl\<close> it returns \<open>null\<close> and deletes the entry
  from the table. The \<open>getCache\<close> follows the \<open>setCache\<close> with no other cache call
  between them; only the clock advances. The engine is in a state that satisfies the cache invariant, as every
  state reached from the constructor does (\<open>new_engine_ok\<close>, \<open>run_cache_ok\<close>).
\<close>

theorem cache_get_after_set:
  assumes "cache_ok e" and "0 < ttl"
  shows "(t - now < ttl \<longrightarrow>
            getCache t key (setCache now key v (Some ttl) e)
              = (Some v, setCache now key v (Some ttl) e))
       \<and> (now + ttl \<le> t \<longrightarrow>
            getCache t key (setCache now key v (Some ttl) e)
              = (None, (setCache now key v (Some ttl) e)
                         \<lparr> cache := AList.delete key (cache (setCache now key v (Some ttl) e)) \<rparr>)
            \<and> map_of (cache (snd (getCache t key (setCache now key v (Some ttl) e)))) key = None)"
proof -
  let ?e = "setCache now key v (Some ttl) e"
  have look: "map_of (cache ?e) key = Some \<lparr> data = v, timestamp = now, timeout = ttl \<rparr>"
    using setCache_lookup [OF assms(1), of now key v "Some ttl"] by simp
  have fresh: "t - now < ttl \<longrightarrow> getCache t key ?e = (Some v, ?e)"
    using assms(2) by (simp add: getCache_def look)
  have stale: "now + ttl \<le> t \<longrightarrow>
      getCache t key ?e = (None, ?e\<lparr> cache := AList.delete key (cache ?e) \<rparr>)"
    using assms(2) by (simp add: getCache_def look)
  have gone: "now + ttl \<le> t \<longrightarrow> map_of (cache (snd (getCache t key ?e))) key = None"
    using stale by (simp add: delete_conv')
  from fresh stale gone show ?thesis by blast
qed

theorem cache_get_after_set_witness:
  "cache_ok (new_engine :: nat engine)
   \<and> fst (getCache 1009 ''expire'' (setCache 1000 ''expire'' (7::nat) (Some 10) new_engine)) = Some 7
   \<and> fst (getCache 1015 ''expire'' (setCache 1000 ''expire'' (7::nat) (Some 10) new_engine)) = None
   \<and> map_of (cache (snd (getCache 1015 ''expire''
          (setCache 1000 ''expire'' (7::nat) (Some 10) new_engine)))) ''expire'' = None"
proof -
  let ?e = "setCache 1000 ''expire'' (7::nat) (Some 10) new_engine"
  have fresh: "getCache 1009 ''expire'' ?e = (Some 7, ?e)"
    by (rule cache_get_after_set [OF new_engine_ok, of 10 1009 1000 "''expire''" "7::nat",
          THEN conjunct1, THEN mp]) simp_all
  have stale: "getCache 1015 ''expire'' ?e
                 = (None, ?e\<lparr> cache := AList.delete ''expire'' (cache ?e) \<rparr>)
               \<and> map_of (cache (snd (getCache 1015 ''expire'' ?e))) ''expire'' = None"
    by (rule cache_get_after_set [OF new_engine_ok, of 10 1015 1000 "''expire''" "7::nat",
          THEN conjunct2, THEN mp]) simp_all
  have a: "fst (getCache 1009 ''expire'' ?e) = Some 7"
    by (simp only: fresh fst_conv)
  have b: "fst (getCache 1015 ''expire'' ?e) = None"
    by (simp only: stale [THEN conjunct1] fst_conv)
  note c = stale [THEN conjunct2]
  from new_engine_ok a b c show ?thesis
    by (intro conjI)
qed

text \<open>
  C4. After a \<open>setCache\<close> the table holds at most 10 distinct keys (the bound is the
  literal 10 of the source), in the state after any one call and in every state reached from
  the constructor. Writing a new key into a table of 10 keys removes exactly the first key
  of the table and appends the new one; the resulting table is also the one obtained by
  deleting the first key before writing. In every other case nothing is evicted. The table
  is a queue in the order in which its keys entered it: overwriting a key leaves the order
  of the keys as it is, and \<open>getCache\<close> at most removes the key it looks up.
\<close>

theorem cache_bounded_fifo:
  assumes "cache_ok e"
  shows "length (cache (setCache now key v tmo e)) \<le> 10
       \<and> distinct (map fst (cache (setCache now key v tmo e)))
       \<and> length (cache (run_cache ops new_engine)) \<le> 10
       \<and> (let entry = \<lparr> data = v, timestamp = now,
                          timeout = (case tmo of None \<Rightarrow> cacheTimeout e | Some t \<Rightarrow> t) \<rparr>
          in (key \<notin> fst ` set (cache e) \<and> length (cache e) = 10 \<longrightarrow>
                cache (setCache now key v tmo e) = tl (cache e) @ [(key, entry)]
                \<and> cache (setCache now key v tmo e)
                    = AList.update key entry (AList.delete (fst (hd (cache e))) (cache e)))
           \<and> (key \<in> fst ` set (cache e) \<or> length (cache e) < 10 \<longrightarrow>
                cache (setCache now key v tmo e) = AList.update key entry (cache e)))
       \<and> (key \<in> fst ` set (cache e) \<longrightarrow>
            map fst (cache (setCache now key v tmo e)) = map fst (cache e))
       \<and> (map fst (cache (snd (getCache t k e))) = map fst (cache e)
          \<or> map fst (cache (snd (getCache t k e))) = removeAll k (map fst (cache e)))"
proof -
  let ?x = "\<lparr> data = v, timestamp = now,
                timeout = (case tmo of None \<Rightarrow> cacheTimeout e | Some t \<Rightarrow> t) \<rparr>"
  have ok: "cache_ok (setCache now key v tmo e)"
    using assms by (rule setCache_ok)
  have reach: "length (cache (run_cache ops (new_engine :: 'b engine))) \<le> 10"
    using run_cache_ok [OF new_engine_ok, of ops] by (simp add: cache_ok_def)
  have full: "cache (setCache now key v tmo e) = tl (cache e) @ [(key, ?x)]
      \<and> cache (setCache now key v tmo e)
          = AList.update key ?x (AList.delete (fst (hd (cache e))) (cache e))"
    if new: "key \<notin> fst ` set (cache e)" and len: "length (cache e) = 10"
  proof -
    obtain k0 v0 rest where c: "cache e = (k0, v0) # rest"
      using len by (cases "cache e") auto
    have "k0 \<notin> fst ` set rest" using assms c by (auto simp: cache_ok_def)
    then have del: "AList.delete (fst (hd (cache e))) (cache e) = rest"
      by (simp add: c)
    have "key \<notin> fst ` set rest" using new c by auto
    then have upd: "AList.update key ?x rest = rest @ [(key, ?x)]"
      by (rule update_new_key)
    have "cache (setCache now key v tmo e) = tl (cache e) @ [(key, ?x)]"
      using new len by (simp add: setCache_cache [OF assms] Let_def)
    then show ?thesis unfolding del upd by (simp add: c)
  qed
  have room: "cache (setCache now key v tmo e) = AList.update key ?x (cache e)"
    if "key \<in> fst ` set (cache e) \<or> length (cache e) < 10"
    using that by (auto simp: setCache_cache [OF assms] Let_def)
  have stay: "map fst (cache (setCache now key v tmo e)) = map fst (cache e)"
    if "key \<in> fst ` set (cache e)"
    using that room by (simp add: update_keys)
  have get: "map fst (cache (snd (getCache t k e))) = map fst (cache e)
      \<or> map fst (cache (snd (getCache t k e))) = removeAll k (map fst (cache e))"
    by (simp add: getCache_def Let_def delete_keys split: option.splits)
  from ok have "length (cache (setCache now key v tmo e)) \<le> 10"
    and "distinct (map fst (cache (setCache now key v tmo e)))"
    by (simp_all add: cache_ok_def)
  with reach full room stay get show ?thesis unfolding Let_def by blast
qed

lemma full_engine_keys: "map fst (cache full_engine) = ten_keys"
  by code_simp

lemma full_engine_after_get: "cache (snd (getCache 1 ''k0'' full_engine)) = cache full_engine"
  by code_simp


theorem cache_bounded_fifo_witness:
  "cache_ok (snd (getCache 1 ''k0'' full_engine))
   \<and> map fst (cache full_engine) = ten_keys
   \<and> map fst (cache (setCache 3 ''new'' 9 None (snd (getCache 1 ''k0'' full_engine))))
       = tl ten_keys @ [''new'']"
proof -
  let ?e = "snd (getCache 1 ''k0'' full_engine)"
  have ok: "cache_ok ?e"
    unfolding full_engine_def by (intro getCache_ok run_cache_ok new_engine_ok)
  have keys: "map fst (cache ?e) = ten_keys"
    by (simp only: full_engine_after_get full_engine_keys)
  have len: "length (cache ?e) = 10"
    using arg_cong [OF keys, of length] by (simp add: ten_keys_def)
  have new: "''new'' \<notin> fst ` set (cache ?e)"
    using arg_cong [OF keys, of set] by (simp add: ten_keys_def)
  have "cache (setCache 3 ''new'' 9 None ?e)
          = tl (cache ?e) @ [(''new'', \<lparr> data = 9, timestamp = 3, timeout = cacheTimeout ?e \<rparr>)]"
    using cache_bounded_fifo [OF ok, of 3 "''new''" 9 None "[]" 0 "''k0''",
        unfolded Let_def option.case] new len
    by blast
  then have "map fst (cache (setCache 3 ''new'' 9 None ?e)) = tl (map fst (cache ?e)) @ [''new'']"
    by (simp add: map_tl)
  with ok keys full_engine_keys show ?thesis by simp
qed

section \<open>Properties of the differ\<close>

lemma crashed_changes_Nil [simp]: "crashed_changes [] ks = []"
  by (simp add: crashed_changes_def)

lemma crashed_changes_Cons:
  "crashed_changes ((n, i) # ps) ks =
     (if n \<in> set ks then [] else [ProcessCrashed n (pid i)]) @ crashed_changes ps ks"
  by (simp add: crashed_changes_def)

lemma started_changes_Nil [simp]: "started_changes [] ks = []"
  by (simp add: started_changes_def)

lemma started_changes_Cons:
  "started_changes ((n, i) # ps) ks =
     (if n \<in> set ks then [] else [ProcessStarted n (pid i)]) @ started_changes ps ks"
  by (simp add: started_changes_def)

lemma crashed_changes_none: "fst ` set ps \<subseteq> set ks \<Longrightarrow> crashed_changes ps ks = []"
  by (induction ps) (auto simp: crashed_changes_Cons)

lemma started_changes_none: "fst ` set ps \<subseteq> set ks \<Longrightarrow> started_changes ps ks = []"
  by (induction ps) (auto simp: started_changes_Cons)

lemma crashed_changes_one:
  assumes "distinct (map fst ps)" and "map_of ps role = Some info"
    and "\<And>n. n \<in> fst ` set ps \<Longrightarrow> n \<noteq> role \<Longrightarrow> n \<in> set ks" and "role \<notin> set ks"
  shows "crashed_changes ps ks = [ProcessCrashed role (pid info)]"
  using assms
proof (induction ps)
  case Nil
  then show ?case by simp
next
  case (Cons p ps)
  obtain n i where p: "p = (n, i)" by (cases p)
  show ?case
  proof (cases "n = role")
    case True
    then have "info = i" using Cons.prems(2) p by simp
    moreover have "fst ` set ps \<subseteq> set ks"
      using Cons.prems(1,3) p True by auto
    ultimately show ?thesis
      using True p Cons.prems(4) by (simp add: crashed_changes_Cons crashed_changes_none)
  next
    case False
    then have "n \<in> set ks" using Cons.prems(3) p by simp
    moreover have "crashed_changes ps ks = [ProcessCrashed role (pid info)]"
      using Cons.IH Cons.prems False p by auto
    ultimately show ?thesis by (simp add: p crashed_changes_Cons)
  qed
qed

lemma get_property_own: "map_of obj name = Some v \<Longrightarrow> get_property obj name = Own v"
  by (simp add: get_property_def)

lemma get_property_undefined:
  "name \<notin> fst ` set obj \<Longrightarrow> name \<notin> set object_prototype_members
     \<Longrightarrow> get_property obj name = Undefined"
proof -
  assume "name \<notin> fst ` set obj" and m: "name \<notin> set object_prototype_members"
  then have "map_of obj name = None" by (simp add: map_of_eq_None_iff)
  with m show ?thesis by (simp add: get_property_def)
qed

lemma network_changes_quiet:
  "(\<And>k v. (k, v) \<in> set bn \<Longrightarrow> \<exists>v'. map_of an k = Some v' \<and> healthy v' = healthy v)
     \<Longrightarrow> network_changes bn an = Inr []"
proof (induction bn)
  case Nil
  then show ?case by simp
next
  case (Cons p bn)
  obtain k v where p: "p = (k, v)" by (cases p)
  from Cons.prems [of k v] p obtain v' where "map_of an k = Some v'" "healthy v' = healthy v"
    by auto
  then have "get_property an k = Own v'" "healthy v' = healthy v"
    by (simp_all add: get_property_own)
  moreover have "network_changes bn an = Inr []"
    using Cons.IH Cons.prems by auto
  ultimately show ?case by (simp add: p)
qed

lemma network_changes_same:
  assumes "distinct (map fst bn)" and "map_of bn = map_of an"
  shows "network_changes bn an = Inr []"
proof (rule network_changes_quiet)
  fix k v assume "(k, v) \<in> set bn"
  then have "map_of bn k = Some v" using assms(1) by simp
  then show "\<exists>v'. map_of an k = Some v' \<and> healthy v' = healthy v"
    using assms(2) by auto
qed

lemma network_changes_missing:
  "k \<in> fst ` set bn \<Longrightarrow> k \<notin> fst ` set an \<Longrightarrow> k \<notin> set object_prototype_members
     \<Longrightarrow> \<exists>p. network_changes bn an = Inl (TypeError p)"
proof (induction bn)
  case Nil
  then show ?case by simp
next
  case (Cons p bn)
  obtain k' v where p: "p = (k', v)" by (cases p)
  show ?case
  proof (cases "k' = k")
    case True
    then have "get_property an k' = Undefined"
      using Cons.prems(2,3) by (simp add: get_property_undefined)
    then show ?thesis by (simp add: p)
  next
    case False
    then have "k \<in> fst ` set bn" using Cons.prems(1) p by auto
    then obtain q where "network_changes bn an = Inl (TypeError q)"
      using Cons.IH Cons.prems(2,3) by auto
    then show ?thesis by (simp add: p split: property.splits)
  qed
qed

lemma network_changes_error: "network_changes bn an = Inl e \<Longrightarrow> e = TypeError ''healthy''"
  by (induction bn) (auto split: property.splits sum.splits)

lemma readiness_changes_same:
  "map_option level rb = map_option level ra \<Longrightarrow> readiness_changes rb ra = []"
  by (cases rb; cases ra) (simp_all add: readiness_changes_def)

lemma map_of_eq_keys: "map_of ps = map_of qs \<Longrightarrow> fst ` set ps = fst ` set qs"
  by (metis dom_map_of_conv_image_fst)

lemma or_empty_map_of:
  "map_option map_of x = map_option map_of y \<Longrightarrow> map_of (or_empty x) = map_of (or_empty y)"
  by (cases x; cases y) (simp_all add: or_empty_def)

lemma network_part_same:
  assumes "distinct (map fst (or_empty nb))" and "map_option map_of nb = map_option map_of na"
  shows "(case (nb, na) of (Some bn, Some an) \<Rightarrow> network_changes bn an | _ \<Rightarrow> Inr []) = Inr []"
proof (cases nb)
  case None
  then show ?thesis by simp
next
  case (Some bn)
  then obtain an where na: "na = Some an" and "map_of bn = map_of an"
    using assms(2) by (cases na) auto
  moreover have "distinct (map fst bn)" using assms(1) Some by (simp add: or_empty_def)
  ultimately show ?thesis using Some by (simp add: network_changes_same)
qed

text \<open>
  C5. Two snapshots with the same process dictionary, the same network dictionary and the
  same readiness level (timestamps, scores and the order of keys may differ) give no change;
  in particular a snapshot compared with itself gives none. Dictionaries have each key
  once (\<open>wf_snapshot\<close>).
\<close>

theorem diff_identical_empty:
  assumes "wf_snapshot b"
    and "map_option map_of (processes b) = map_option map_of (processes a)"
    and "map_option map_of (network b) = map_option map_of (network a)"
    and "map_option level (readiness b) = map_option level (readiness a)"
  shows "detectStateChanges b a = Inr [] \<and> detectStateChanges b b = Inr []"
proof -
  have quiet: "detectStateChanges x y = Inr []"
    if "distinct (map fst (or_empty (network x)))"
      and "map_option map_of (processes x) = map_option map_of (processes y)"
      and "map_option map_of (network x) = map_option map_of (network y)"
      and "map_option level (readiness x) = map_option level (readiness y)" for x y
  proof -
    have keys: "fst ` set (or_empty (processes x)) = fst ` set (or_empty (processes y))"
      using that(2) by (intro map_of_eq_keys or_empty_map_of)
    have c: "crashed_changes (or_empty (processes x)) (map fst (or_empty (processes y))) = []"
      by (rule crashed_changes_none) (simp add: keys)
    have s: "started_changes (or_empty (processes y)) (map fst (or_empty (processes x))) = []"
      by (rule started_changes_none) (simp add: keys)
    note n = network_part_same [OF that(1) that(3)]
    note r = readiness_changes_same [OF that(4)]
    show ?thesis
      by (simp only: detectStateChanges_def Let_def c s n r sum.case append_Nil)
  qed
  have d: "distinct (map fst (or_empty (network b)))"
    using assms(1) by (simp add: wf_snapshot_def)
  show ?thesis
    using quiet [OF d assms(2-4)] quiet [OF d refl refl refl] by simp
qed

text \<open>
  C6. When the current snapshot differs from the previous one only in that one process role
  of the previous one is gone, the result is exactly one change: \<open>process:crashed\<close> for
  that role, with the pid the previous snapshot has for it.
\<close>

theorem diff_one_process_crashed:
  assumes "wf_snapshot b"
    and "map_of (or_empty (processes b)) role = Some info"
    and "map_of (or_empty (processes a)) = (map_of (or_empty (processes b)))(role := None)"
    and "map_option map_of (network b) = map_option map_of (network a)"
    and "map_option level (readiness b) = map_option level (readiness a)"
  shows "detectStateChanges b a = Inr [ProcessCrashed role (pid info)]"
proof -
  let ?pb = "or_empty (processes b)" and ?pa = "or_empty (processes a)"
  have "dom (map_of ?pa) = dom (map_of ?pb) - {role}"
    by (simp add: assms(3))
  then have keys: "fst ` set ?pa = fst ` set ?pb - {role}"
    by (simp add: dom_map_of_conv_image_fst)
  have c: "crashed_changes ?pb (map fst ?pa) = [ProcessCrashed role (pid info)]"
  proof (rule crashed_changes_one)
    show "distinct (map fst ?pb)" using assms(1) by (simp add: wf_snapshot_def)
    show "map_of ?pb role = Some info" by (rule assms(2))
    show "n \<in> set (map fst ?pa)" if "n \<in> fst ` set ?pb" "n \<noteq> role" for n
      using that keys by simp
    show "role \<notin> set (map fst ?pa)" using keys by simp
  qed
  have s: "started_changes ?pa (map fst ?pb) = []"
    by (rule started_changes_none) (auto simp: keys)
  have d: "distinct (map fst (or_empty (network b)))"
    using assms(1) by (simp add: wf_snapshot_def)
  note n = network_part_same [OF d assms(4)]
  note r = readiness_changes_same [OF assms(5)]
  show ?thesis
    by (simp only: detectStateChanges_def Let_def c s n r sum.case append_Nil append_Nil2)
qed

text \<open>
  C7. What the source does when an endpoint of the previous network dictionary is missing
  from the current one, for every endpoint name that \<open>Object.prototype\<close> does not
  define: it reads \<open>healthy\<close> of \<open>undefined\<close> and throws a \<open>TypeError\<close>; no list
  of changes is returned. (For one of the twelve inherited names the read finds the
  inherited member instead; \<open>diff_missing_inherited_name\<close> below shows the two outcomes.)
\<close>

theorem diff_missing_endpoint_throws:
  assumes "network b = Some bn" and "network a = Some an"
    and "endpoint \<in> fst ` set bn" and "endpoint \<notin> fst ` set an"
    and "endpoint \<notin> set object_prototype_members"
  shows "detectStateChanges b a = Inl (TypeError ''healthy'')"
proof -
  obtain p where "network_changes bn an = Inl (TypeError p)"
    using network_changes_missing [OF assms(3,4,5)] by auto
  then have "network_changes bn an = Inl (TypeError ''healthy'')"
    using network_changes_error by fastforce
  then show ?thesis
    by (simp add: detectStateChanges_def Let_def assms(1,2))
qed

text \<open>
  A missing endpoint whose name \<open>Object.prototype\<close> defines: no exception; a
  \<open>network:down\<close> with an undefined port when the previous status was healthy, no change
  when it was not.
\<close>

lemma diff_missing_inherited_name:
  "detectStateChanges (snapshot_inherited_name True) snapshot_endpoint_missing
     = Inr [NetworkDown ''toString'' None]
   \<and> detectStateChanges (snapshot_inherited_name False) snapshot_endpoint_missing = Inr []"
  by code_simp

lemma snapshot_before_wf: "wf_snapshot snapshot_before"
  by (simp add: wf_snapshot_def snapshot_before_def or_empty_def)

lemma map_of_two_swap:
  "k \<noteq> k' \<Longrightarrow> [k \<mapsto> v, k' \<mapsto> v'] = [k' \<mapsto> v', k \<mapsto> v]"
  by (rule ext) simp

theorem diff_identical_empty_witness:
  "wf_snapshot snapshot_before
   \<and> scan_timestamp snapshot_before \<noteq> scan_timestamp snapshot_same
   \<and> detectStateChanges snapshot_before snapshot_same = Inr []
   \<and> detectStateChanges snapshot_before snapshot_before = Inr []"
proof -
  have p: "map_option map_of (processes snapshot_before)
             = map_option map_of (processes snapshot_same)"
    by (simp add: snapshot_before_def snapshot_same_def map_of_two_swap [of "''vite''" "''convex''"])
  have n: "map_option map_of (network snapshot_before)
             = map_option map_of (network snapshot_same)"
    by (simp add: snapshot_before_def snapshot_same_def map_of_two_swap [of "''vite''" "''convex''"])
  have r: "map_option level (readiness snapshot_before)
             = map_option level (readiness snapshot_same)"
    by (simp add: snapshot_before_def snapshot_same_def ready_100_def)
  have t: "scan_timestamp snapshot_before \<noteq> scan_timestamp snapshot_same"
    by (simp add: snapshot_before_def snapshot_same_def)
  from snapshot_before_wf t diff_identical_empty [OF snapshot_before_wf p n r]
  show ?thesis by (intro conjI) simp_all
qed

theorem diff_one_process_crashed_witness:
  "wf_snapshot snapshot_before
   \<and> detectStateChanges snapshot_before snapshot_after_crash
       = Inr [ProcessCrashed ''convex'' (Some ''4243'')]"
proof -
  have i: "map_of (or_empty (processes snapshot_before)) ''convex'' = Some (dev_process ''4243'')"
    by (simp add: snapshot_before_def or_empty_def)
  have p: "map_of (or_empty (processes snapshot_after_crash))
             = (map_of (or_empty (processes snapshot_before)))(''convex'' := None)"
    by (rule ext) (simp add: snapshot_before_def snapshot_after_crash_def or_empty_def)
  have n: "map_option map_of (network snapshot_before)
             = map_option map_of (network snapshot_after_crash)"
    by (simp add: snapshot_before_def snapshot_after_crash_def
        map_of_two_swap [of "''vite''" "''convex''"])
  have r: "map_option level (readiness snapshot_before)
             = map_option level (readiness snapshot_after_crash)"
    by (simp add: snapshot_before_def snapshot_after_crash_def)
  have "detectStateChanges snapshot_before snapshot_after_crash
          = Inr [ProcessCrashed ''convex'' (pid (dev_process ''4243''))]"
    by (rule diff_one_process_crashed [OF snapshot_before_wf i p n r])
  then show ?thesis using snapshot_before_wf by (simp add: dev_process_def)
qed

theorem diff_missing_endpoint_throws_witness:
  "detectStateChanges snapshot_before snapshot_endpoint_missing = Inl (TypeError ''healthy'')"
proof -
  let ?bn = "[(''vite'', mk_endpoint 5173 True), (''convex'', mk_endpoint 3210 False)]"
  let ?an = "[(''vite'', mk_endpoint 5173 True)]"
  have b: "network snapshot_before = Some ?bn"
    by (simp add: snapshot_before_def)
  have a: "network snapshot_endpoint_missing = Some ?an"
    by (simp add: snapshot_endpoint_missing_def)
  have i: "''convex'' \<in> fst ` set ?bn" by simp
  have o: "''convex'' \<notin> fst ` set ?an" by simp
  have m: "''convex'' \<notin> set object_prototype_members"
    by (simp add: object_prototype_members_def)
  show ?thesis by (rule diff_missing_endpoint_throws [OF b a i o m])
qed

section \<open>Properties of the monitor\<close>

lemma startLogWatcher_monitoring:
  "monitoring (snd (startLogWatcher w logName e)) = monitoring e"
  by (simp add: startLogWatcher_def split: sum.splits)

lemma start_watchers_monitoring:
  "monitoring (snd (start_watchers w names e)) = monitoring e"
proof (induction names arbitrary: e)
  case Nil
  then show ?case by simp
next
  case (Cons n names)
  obtain r e' where s: "startLogWatcher w n e = (r, e')" by (cases "startLogWatcher w n e")
  then have m: "monitoring e' = monitoring e"
    using startLogWatcher_monitoring [of w n e] by simp
  show ?case
  proof (cases r)
    case (Inl err)
    then show ?thesis using s m by simp
  next
    case (Inr h)
    then show ?thesis using s m Cons.IH [of e'] by simp
  qed
qed

lemma startMonitoring_success_active:
  assumes "startMonitoring w options e = (Inr u, e')"
  shows "monitoring e'"
proof -
  let ?names = "case logFiles options of
                  None \<Rightarrow> [''dev-server'', ''build'', ''test'', ''convex''] | Some l \<Rightarrow> l"
  have idle: "\<not> monitoring e"
    using assms by (auto simp: startMonitoring_def)
  obtain r e2 where sw: "start_watchers w ?names (e\<lparr> monitoring := True \<rparr>) = (r, e2)"
    by (cases "start_watchers w ?names (e\<lparr> monitoring := True \<rparr>)")
  then have "monitoring e2"
    using start_watchers_monitoring [of w ?names "e\<lparr> monitoring := True \<rparr>"] by simp
  then show ?thesis
    using assms idle sw
    by (auto simp: startMonitoring_def Let_def startProcessMonitoring_def
        startNetworkMonitoring_def split: sum.splits prod.splits if_splits)
qed

text \<open>
  C9. \<open>startMonitoring\<close> called while the flag is set throws
  \<open>Error('Monitoring already active')\<close> and leaves the whole engine as it is: the flag,
  the log watchers, the process monitor and every other field. A start that succeeds leaves
  the flag set, so a second start right after it (whatever its options and whatever the
  environment does) fails in this way and the watchers of the first start stay the only
  ones.
\<close>

theorem start_while_active_fails:
  "(monitoring e \<longrightarrow>
      startMonitoring w options e = (Inl (Error ''Monitoring already active''), e))
   \<and> (startMonitoring w options e = (Inr u, e') \<longrightarrow>
        monitoring e'
        \<and> startMonitoring w' options' e' = (Inl (Error ''Monitoring already active''), e'))"
proof -
  have guard: "startMonitoring x opts s = (Inl (Error ''Monitoring already active''), s)"
    if "monitoring s" for x :: "'a world" and opts s
    using that by (simp add: startMonitoring_def)
  have "monitoring e'" if "startMonitoring w options e = (Inr u, e')"
    using that by (rule startMonitoring_success_active)
  then show ?thesis using guard by blast
qed

lemma started_engine_start: "fst (startMonitoring quiet_world default_options new_engine) = Inr ()"
  by code_simp

lemma started_engine_watchers:
  "map fst (logWatchers started_engine) = [''dev-server'', ''build'', ''test'', ''convex'']"
  by code_simp

theorem start_while_active_fails_witness:
  "monitoring started_engine
   \<and> map fst (logWatchers started_engine) = [''dev-server'', ''build'', ''test'', ''convex'']
   \<and> startMonitoring quiet_world default_options started_engine
       = (Inl (Error ''Monitoring already active''), started_engine)"
proof -
  have first: "startMonitoring quiet_world default_options new_engine = (Inr (), started_engine)"
    using started_engine_start
    by (simp add: started_engine_def prod_eq_iff)
  note c = start_while_active_fails [of new_engine quiet_world default_options "()" started_engine
      quiet_world default_options]
  from c first have "monitoring started_engine"
    and "startMonitoring quiet_world default_options started_engine
           = (Inl (Error ''Monitoring already active''), started_engine)"
    by blast+
  with started_engine_watchers show ?thesis by (intro conjI)
qed

section \<open>Properties of the process probe\<close>

text \<open>
  C10. \<open>canStart\<close> is true exactly when \<open>scanProcesses\<close> returns the empty
  dictionary. When the process listing fails, \<open>scanProcesses\<close> returns the empty
  dictionary, so \<open>canStart\<close> is true, and both results are those of a listing that
  succeeded and printed nothing.
\<close>

theorem canStart_iff_no_process:
  "(canStart outcome \<longleftrightarrow> scanProcesses outcome = [])
   \<and> scanProcesses (Inl err) = []
   \<and> canStart (Inl err)
   \<and> scanProcesses (Inl err) = scanProcesses (Inr [])
   \<and> canStart (Inl err) = canStart (Inr [])"
proof -
  have iff: "canStart outcome \<longleftrightarrow> scanProcesses outcome = []"
    by (simp add: canStart_def)
  have failed: "scanProcesses (Inl err) = []"
    by (simp add: scanProcesses_def)
  have silent: "scanProcesses (Inr []) = []"
    by (simp add: scanProcesses_def trim_def)
  from iff failed silent show ?thesis
    by (simp add: canStart_def)
qed

lemma sample_ps_output_roles: "map fst (scanProcesses (Inr sample_ps_output)) = [''vite'', ''convex'']"
  by code_simp

theorem canStart_iff_no_process_witness:
  "canStart (Inl (Error ''spawn /bin/sh ENOENT''))
   \<and> canStart (Inr [])
   \<and> map fst (scanProcesses (Inr sample_ps_output)) = [''vite'', ''convex'']
   \<and> \<not> canStart (Inr sample_ps_output)"
proof -
  have "scanProcesses (Inr sample_ps_output) \<noteq> []"
    using sample_ps_output_roles by auto
  then have "\<not> canStart (Inr sample_ps_output)"
    using canStart_iff_no_process [of "Inr sample_ps_output" "Error ''x''"] by blast
  moreover have "canStart (Inl (Error ''spawn /bin/sh ENOENT''))" "canStart (Inr [])"
    using canStart_iff_no_process [of "Inr []" "Error ''spawn /bin/sh ENOENT''"] by blast+
  ultimately show ?thesis using sample_ps_output_roles by (intro conjI)
qed

end
